theory Spec2Isabelle
  imports Complex_Main
begin

section \<open>Co-purchase recommendation engine (lab5.4/task3.py)\<close>

text \<open>
  A shallow embedding of the recommendation pipeline of \<^verbatim>\<open>src/lab5.4/task3.py\<close>:
  \<^verbatim>\<open>build_copurchase_graph\<close>, \<^verbatim>\<open>score_candidates\<close>, \<^verbatim>\<open>fairness_rerank\<close>,
  \<^verbatim>\<open>explain_recommendation\<close> and \<^verbatim>\<open>recommend_for_user\<close>.

  Modelling conventions.
  \<^item> A Python \<^verbatim>\<open>dict\<close> that is iterated (\<^verbatim>\<open>.items()\<close>) is an association list in
    insertion order; a well-formed dict has pairwise distinct keys. A dict that is
    only looked up (the catalog) is a map.
  \<^item> Python \<^verbatim>\<open>int\<close> is \<^typ>\<open>int\<close>. Python \<^verbatim>\<open>float\<close> is idealised as \<^typ>\<open>real\<close>:
    rounding, overflow and NaN are not modelled.
  \<^item> A function's outcome is a value of \<open>error + 'a\<close>: \<open>Inl\<close> is a raised error,
    \<open>Inr\<close> a normal return. The source contains no \<^verbatim>\<open>raise\<close>, so every path of the
    model ends in \<open>Inr\<close>.
\<close>

subsection \<open>Data model\<close>

record Product =
  product_id :: string
  title :: string
  brand :: string
  category :: string

datatype error = InvalidConfiguration

type_synonym edge = "string \<times> string"
type_synonym graph = "(edge \<times> int) list"
type_synonym scoremap = "(string \<times> real) list"
type_synonym history = "(string \<times> string list) list"
type_synonym catalog = "string \<rightharpoonup> Product"

subsection \<open>Dictionary primitives\<close>

text \<open>
  \<^verbatim>\<open>d[k] += v\<close> on a \<^verbatim>\<open>defaultdict\<close> whose default is zero: an existing key keeps its
  position and has \<open>v\<close> added; a new key is appended at the end with \<open>0 + v\<close>.
\<close>

fun dict_add :: "('k \<times> 'v::monoid_add) list \<Rightarrow> 'k \<Rightarrow> 'v \<Rightarrow> ('k \<times> 'v) list" where
  "dict_add [] k v = [(k, 0 + v)]"
| "dict_add ((k', v') # d) k v =
     (if k' = k then (k', v' + v) # d else (k', v') # dict_add d k v)"

text \<open>
  \<^verbatim>\<open>list(dict.fromkeys(xs))\<close>: the elements of \<open>xs\<close> in order of first occurrence.
\<close>

definition dict_fromkeys :: "'a list \<Rightarrow> 'a list" where
  "dict_fromkeys xs = fold (\<lambda>x keys. if x \<in> set keys then keys else keys @ [x]) xs []"

text \<open>\<^verbatim>\<open>d.get(k, 0)\<close> on the graph.\<close>

definition edge_count :: "graph \<Rightarrow> edge \<Rightarrow> int" where
  "edge_count g e = (case map_of g e of None \<Rightarrow> 0 | Some c \<Rightarrow> c)"

subsection \<open>build_copurchase_graph\<close>

text \<open>
  The inner loop \<^verbatim>\<open>for j in range(i + 1, len(unique_products))\<close> for a fixed \<open>i\<close>:
  \<open>a\<close> is \<^verbatim>\<open>unique_products[i]\<close> and the list is \<^verbatim>\<open>unique_products[i+1:]\<close>.
\<close>

fun add_pairs :: "string \<Rightarrow> string list \<Rightarrow> graph \<Rightarrow> graph" where
  "add_pairs a [] g = g"
| "add_pairs a (b # bs) g = add_pairs a bs (dict_add (dict_add g (a, b) 1) (b, a) 1)"

text \<open>The outer loop \<^verbatim>\<open>for i in range(len(unique_products))\<close>.\<close>

fun add_user_pairs :: "string list \<Rightarrow> graph \<Rightarrow> graph" where
  "add_user_pairs [] g = g"
| "add_user_pairs (a # rest) g = add_user_pairs rest (add_pairs a rest g)"

text \<open>The loop over \<^verbatim>\<open>purchase_history.items()\<close>.\<close>

fun add_users :: "history \<Rightarrow> graph \<Rightarrow> graph" where
  "add_users [] g = g"
| "add_users ((user_id, products) # hs) g =
     add_users hs (add_user_pairs (dict_fromkeys products) g)"

definition build_copurchase_graph :: "history \<Rightarrow> graph" where
  "build_copurchase_graph purchase_history = add_users purchase_history []"

subsection \<open>score_candidates\<close>

text \<open>
  The inner loop \<^verbatim>\<open>for (a, b), count in edge_to_count.items()\<close> for one owned product
  and its weight. \<^verbatim>\<open>product_to_score\<close> is a \<^verbatim>\<open>defaultdict(float)\<close>.
\<close>

fun score_edges :: "string \<Rightarrow> real \<Rightarrow> string list \<Rightarrow> graph \<Rightarrow> scoremap \<Rightarrow> scoremap" where
  "score_edges owned weight target_user_products [] product_to_score = product_to_score"
| "score_edges owned weight target_user_products (((a, b), count) # es) product_to_score =
     score_edges owned weight target_user_products es
       (if a = owned \<and> b \<notin> set target_user_products
        then dict_add product_to_score b (real_of_int count * weight)
        else product_to_score)"

text \<open>
  The outer loop \<^verbatim>\<open>for idx, owned in enumerate(target_user_products)\<close>, from position
  \<open>idx\<close> on, with \<^verbatim>\<open>weight = decay ** idx\<close>.
\<close>

fun score_owned ::
  "real \<Rightarrow> string list \<Rightarrow> graph \<Rightarrow> nat \<Rightarrow> string list \<Rightarrow> scoremap \<Rightarrow> scoremap" where
  "score_owned decay target_user_products edge_to_count idx [] product_to_score =
     product_to_score"
| "score_owned decay target_user_products edge_to_count idx (owned # rest) product_to_score =
     score_owned decay target_user_products edge_to_count (Suc idx) rest
       (score_edges owned (decay ^ idx) target_user_products edge_to_count product_to_score)"

definition score_candidates :: "string list \<Rightarrow> graph \<Rightarrow> real \<Rightarrow> error + scoremap" where
  "score_candidates target_user_products edge_to_count decay =
     Inr (score_owned decay target_user_products edge_to_count 0 target_user_products [])"

subsection \<open>fairness_rerank\<close>

text \<open>
  \<^verbatim>\<open>sorted(candidates.items(), key=lambda kv: kv[1], reverse=True)\<close>: a stable sort,
  descending by score; items of equal score keep their order.
\<close>

definition sorted_items :: "scoremap \<Rightarrow> (string \<times> real) list" where
  "sorted_items candidates = sort_key (\<lambda>kv. - snd kv) candidates"

text \<open>The local variables of the first loop.\<close>

record rerank_state =
  chosen :: "(string \<times> real) list"
  brand_counter :: "string \<Rightarrow> nat"
  categories_present :: "string set"

definition init_state :: rerank_state where
  "init_state = \<lparr>chosen = [], brand_counter = (\<lambda>_. 0), categories_present = {}\<rparr>"

text \<open>
  The first loop over the sorted items. A candidate absent from the catalog is skipped,
  and so is one whose brand has reached the cap; otherwise it is appended, counted and
  its category recorded. The loop is left (\<^verbatim>\<open>break\<close>) when the length of \<open>chosen\<close>
  is exactly \<open>top_k\<close> and enough categories are present.
\<close>

fun first_pass ::
  "catalog \<Rightarrow> int \<Rightarrow> int \<Rightarrow> int \<Rightarrow> (string \<times> real) list \<Rightarrow> rerank_state \<Rightarrow> rerank_state" where
  "first_pass products top_k max_per_brand min_category_diversity [] st = st"
| "first_pass products top_k max_per_brand min_category_diversity ((pid, score) # rest) st =
     (case products pid of
        None \<Rightarrow> first_pass products top_k max_per_brand min_category_diversity rest st
      | Some prd \<Rightarrow>
          if int (brand_counter st (brand prd)) \<ge> max_per_brand
          then first_pass products top_k max_per_brand min_category_diversity rest st
          else
            let st' = \<lparr>chosen = chosen st @ [(pid, score)],
                       brand_counter = (brand_counter st)
                         (brand prd := brand_counter st (brand prd) + 1),
                       categories_present = insert (category prd) (categories_present st)\<rparr>
            in if int (length (chosen st')) = top_k
                  \<and> int (card (categories_present st')) \<ge> min_category_diversity
               then st'
               else first_pass products top_k max_per_brand min_category_diversity rest st')"

text \<open>
  The second loop (backfill), entered only when \<^verbatim>\<open>len(chosen) < top_k\<close>: every item not
  yet chosen and present in the catalog is appended until the length is \<open>top_k\<close>;
  \<open>acc\<close> is the list \<^verbatim>\<open>chosen\<close> so far.
\<close>

fun backfill ::
  "catalog \<Rightarrow> int \<Rightarrow> (string \<times> real) list \<Rightarrow> (string \<times> real) list \<Rightarrow> (string \<times> real) list" where
  "backfill products top_k [] acc = acc"
| "backfill products top_k ((pid, score) # rest) acc =
     (if (pid, score) \<in> set acc then backfill products top_k rest acc
      else case products pid of
        None \<Rightarrow> backfill products top_k rest acc
      | Some prd \<Rightarrow>
          let acc' = acc @ [(pid, score)]
          in if int (length acc') = top_k then acc'
             else backfill products top_k rest acc')"

text \<open>What the first loop has selected, before any backfill.\<close>

definition first_pass_chosen ::
  "scoremap \<Rightarrow> catalog \<Rightarrow> int \<Rightarrow> int \<Rightarrow> int \<Rightarrow> (string \<times> real) list" where
  "first_pass_chosen candidates products top_k max_per_brand min_category_diversity =
     chosen (first_pass products top_k max_per_brand min_category_diversity
               (sorted_items candidates) init_state)"

definition fairness_rerank ::
  "scoremap \<Rightarrow> catalog \<Rightarrow> int \<Rightarrow> int \<Rightarrow> int \<Rightarrow> error + (string \<times> real) list" where
  "fairness_rerank candidates products top_k max_per_brand min_category_diversity =
     (let chosen1 = first_pass_chosen candidates products top_k max_per_brand
                      min_category_diversity
      in if int (length chosen1) < top_k
         then Inr (backfill products top_k (sorted_items candidates) chosen1)
         else Inr chosen1)"

subsection \<open>explain_recommendation\<close>

text \<open>Python's \<^verbatim>\<open>str\<close> of an \<^verbatim>\<open>int\<close> (what \<^verbatim>\<open>f"{cnt}"\<close> renders): decimal digits, with a sign.\<close>

fun str_nat :: "nat \<Rightarrow> string" where
  "str_nat n =
     (if n < 10 then [''0123456789'' ! n]
      else str_nat (n div 10) @ [''0123456789'' ! (n mod 10)])"

declare str_nat.simps [simp del]

definition str_int :: "int \<Rightarrow> string" where
  "str_int i = (if i < 0 then CHR ''-'' # str_nat (nat (- i)) else str_nat (nat i))"

text \<open>\<^verbatim>\<open>sep.join(parts)\<close>.\<close>

fun join :: "string \<Rightarrow> string list \<Rightarrow> string" where
  "join sep [] = []"
| "join sep [x] = x"
| "join sep (x # y # ys) = x @ sep @ join sep (y # ys)"

text \<open>\<^verbatim>\<open>products.get(x).title if x in products else x\<close>.\<close>

definition title_of :: "catalog \<Rightarrow> string \<Rightarrow> string" where
  "title_of products x = (case products x of Some prd \<Rightarrow> title prd | None \<Rightarrow> x)"

text \<open>
  The loop \<^verbatim>\<open>for owned in user_products\<close> that collects the owned products with a
  positive count, in the order of \<open>user_products\<close>; \<open>pid\<close> is the parameter
  \<^verbatim>\<open>product_id\<close>.
\<close>

fun collect_contributions ::
  "string \<Rightarrow> graph \<Rightarrow> string list \<Rightarrow> (string \<times> int) list \<Rightarrow> (string \<times> int) list" where
  "collect_contributions pid edge_to_count [] contributions = contributions"
| "collect_contributions pid edge_to_count (owned # rest) contributions =
     (let count = edge_count edge_to_count (owned, pid)
      in collect_contributions pid edge_to_count rest
           (if count > 0 then contributions @ [(owned, count)] else contributions))"

text \<open>
  \<^verbatim>\<open>contributions.sort(key=lambda kv: kv[1], reverse=True)\<close> followed by the slice
  \<^verbatim>\<open>contributions[:3]\<close>.
\<close>

definition top_contributions :: "string \<Rightarrow> string list \<Rightarrow> graph \<Rightarrow> (string \<times> int) list" where
  "top_contributions pid user_products edge_to_count =
     take 3 (sort_key (\<lambda>kv. - snd kv)
               (collect_contributions pid edge_to_count user_products []))"

text \<open>\<^verbatim>\<open>f"{owned_title} ({cnt})"\<close>.\<close>

definition render_part :: "catalog \<Rightarrow> string \<times> int \<Rightarrow> string" where
  "render_part products kv = title_of products (fst kv) @ '' ('' @ str_int (snd kv) @ '')''"

text \<open>The two result strings; \<open>CHR 0x27\<close> is the apostrophe.\<close>

definition because_explanation :: "string \<Rightarrow> string list \<Rightarrow> string" where
  "because_explanation prod_title top_parts =
     ''Recommended '' @ [CHR 0x27] @ prod_title @ [CHR 0x27] @ '' because you bought: ''
       @ join '', '' top_parts"

definition fallback_explanation :: "string \<Rightarrow> string" where
  "fallback_explanation prod_title =
     ''Recommended '' @ [CHR 0x27] @ prod_title @ [CHR 0x27]
       @ '' based on similar users' purchases.''"

definition explain_recommendation :: "string \<Rightarrow> string list \<Rightarrow> graph \<Rightarrow> catalog \<Rightarrow> string" where
  "explain_recommendation pid user_products edge_to_count products =
     (let top_parts = map (render_part products)
                        (top_contributions pid user_products edge_to_count);
          prod_title = title_of products pid
      in if top_parts \<noteq> [] then because_explanation prod_title top_parts
         else fallback_explanation prod_title)"

subsection \<open>recommend_for_user\<close>

text \<open>
  \<^verbatim>\<open>purchase_history.get(user_id, [])\<close>, then the pipeline with the default decay
  \<open>0.85\<close>, the default brand cap 2 and the default category diversity 2. An error of
  a callee would propagate.
\<close>

definition recommend_for_user ::
  "string \<Rightarrow> history \<Rightarrow> catalog \<Rightarrow> int \<Rightarrow> error + (string \<times> real \<times> string) list" where
  "recommend_for_user user_id purchase_history products top_k =
     (let user_products = (case map_of purchase_history user_id of
                             None \<Rightarrow> [] | Some ps \<Rightarrow> ps);
          edge_to_count = build_copurchase_graph purchase_history
      in case score_candidates user_products edge_to_count (85 / 100) of
           Inl e \<Rightarrow> Inl e
         | Inr raw_scores \<Rightarrow>
             (case fairness_rerank raw_scores products top_k 2 2 of
                Inl e \<Rightarrow> Inl e
              | Inr reranked \<Rightarrow>
                  Inr (map (\<lambda>(pid, score).
                         (pid, score,
                          explain_recommendation pid user_products edge_to_count products))
                       reranked)))"

subsection \<open>Example inputs\<close>

text \<open>The catalog and the purchase history of \<^verbatim>\<open>demo()\<close>.\<close>

definition demo_catalog :: catalog where
  "demo_catalog = map_of
     [(''p1'', \<lparr>product_id = ''p1'', title = ''Eco Water Bottle'', brand = ''AquaCo'', category = ''Outdoors''\<rparr>),
      (''p2'', \<lparr>product_id = ''p2'', title = ''Insulated Mug'', brand = ''AquaCo'', category = ''Kitchen''\<rparr>),
      (''p3'', \<lparr>product_id = ''p3'', title = ''Trail Backpack'', brand = ''HikeMax'', category = ''Outdoors''\<rparr>),
      (''p4'', \<lparr>product_id = ''p4'', title = ''Yoga Mat'', brand = ''ZenFit'', category = ''Fitness''\<rparr>),
      (''p5'', \<lparr>product_id = ''p5'', title = ''Running Shoes'', brand = ''ZenFit'', category = ''Fitness''\<rparr>),
      (''p6'', \<lparr>product_id = ''p6'', title = ''Camping Stove'', brand = ''CampX'', category = ''Outdoors''\<rparr>),
      (''p7'', \<lparr>product_id = ''p7'', title = ''Chef Knife'', brand = ''CookPro'', category = ''Kitchen''\<rparr>),
      (''p8'', \<lparr>product_id = ''p8'', title = ''Coffee Grinder'', brand = ''CookPro'', category = ''Kitchen''\<rparr>)]"

definition demo_history :: history where
  "demo_history =
     [(''u1'', [''p1'', ''p3'', ''p4'']),
      (''u2'', [''p1'', ''p2'', ''p6'']),
      (''u3'', [''p3'', ''p6'']),
      (''u4'', [''p2'', ''p7'', ''p8'']),
      (''u5'', [''p1'', ''p4'', ''p5''])]"

text \<open>The three-user purchase history of the specification's example.\<close>

definition example_history :: history where
  "example_history =
     [(''u1'', [''p1'', ''p3'', ''p4'']),
      (''u2'', [''p1'', ''p2'', ''p6'']),
      (''u3'', [''p3'', ''p6''])]"

subsection \<open>Predicates used in the properties\<close>

text \<open>
  The loop invariant of graph construction: looking up a pair and its mirror image
  gives the same answer, and no key is a self-pair.
\<close>

definition sym_graph :: "graph \<Rightarrow> bool" where
  "sym_graph g \<longleftrightarrow>
     (\<forall>a b. map_of g (a, b) = map_of g (b, a)) \<and> (\<forall>a. map_of g (a, a) = None)"

text \<open>
  How often brand \<open>b\<close> occurs in a list of ranked items: the number of items whose
  catalog entry has that brand.
\<close>

definition brand_occurrences :: "catalog \<Rightarrow> string \<Rightarrow> (string \<times> real) list \<Rightarrow> nat" where
  "brand_occurrences products b items =
     length (filter (\<lambda>kv. case products (fst kv) of None \<Rightarrow> False | Some prd \<Rightarrow> brand prd = b) items)"

text \<open>
  The loop invariant of the first pass: the brand counter counts the chosen items of
  each brand, and no count exceeds the cap (or zero, for a negative cap).
\<close>

definition cap_inv :: "catalog \<Rightarrow> int \<Rightarrow> rerank_state \<Rightarrow> bool" where
  "cap_inv products max_per_brand st \<longleftrightarrow>
     (\<forall>b. brand_counter st b = brand_occurrences products b (chosen st)
          \<and> int (brand_counter st b) \<le> max 0 max_per_brand)"


section \<open>Properties\<close>

subsection \<open>Dictionary primitives\<close>

lemma map_of_dict_add:
  "map_of (dict_add d k v) =
     (map_of d)(k \<mapsto> (case map_of d k of None \<Rightarrow> 0 + v | Some c \<Rightarrow> c + v))"
  by (induction d) (auto simp: fun_eq_iff)

lemma keys_dict_add: "fst ` set (dict_add d k v) = insert k (fst ` set d)"
  by (induction d) force+

lemma distinct_keys_dict_add:
  "distinct (map fst d) \<Longrightarrow> distinct (map fst (dict_add d k v))"
proof (induction d)
  case Nil
  then show ?case by simp
next
  case (Cons kv d)
  obtain k' v' where kv: "kv = (k', v')" by (cases kv)
  have "k' \<notin> fst ` set (dict_add d k v)" if "k' \<noteq> k"
    using Cons.prems that by (simp add: keys_dict_add kv)
  with Cons show ?case by (auto simp: kv)
qed

lemma fromkeys_fold_distinct:
  "distinct keys \<Longrightarrow>
   distinct (fold (\<lambda>x keys. if x \<in> set keys then keys else keys @ [x]) xs keys)"
  by (induction xs arbitrary: keys) auto

lemma distinct_dict_fromkeys: "distinct (dict_fromkeys xs)"
  by (simp add: dict_fromkeys_def fromkeys_fold_distinct)

lemma fromkeys_fold_set:
  "set (fold (\<lambda>x keys. if x \<in> set keys then keys else keys @ [x]) xs keys) = set keys \<union> set xs"
  by (induction xs arbitrary: keys) auto

lemma set_dict_fromkeys: "set (dict_fromkeys xs) = set xs"
  by (simp add: dict_fromkeys_def fromkeys_fold_set)

subsection \<open>The graph is symmetric and has no self-pairs\<close>

lemma sym_graph_Nil: "sym_graph []"
  by (simp add: sym_graph_def)

lemma sym_graph_step:
  assumes "sym_graph g" and "a \<noteq> b"
  shows "sym_graph (dict_add (dict_add g (a, b) 1) (b, a) 1)"
  using assms unfolding sym_graph_def
  by (auto simp: map_of_dict_add split: option.splits)

lemma sym_graph_add_pairs:
  "sym_graph g \<Longrightarrow> a \<notin> set bs \<Longrightarrow> sym_graph (add_pairs a bs g)"
  by (induction bs arbitrary: g) (auto simp: sym_graph_step)

lemma sym_graph_add_user_pairs:
  "sym_graph g \<Longrightarrow> distinct ps \<Longrightarrow> sym_graph (add_user_pairs ps g)"
  by (induction ps arbitrary: g) (auto simp: sym_graph_add_pairs)

lemma sym_graph_add_users: "sym_graph g \<Longrightarrow> sym_graph (add_users h g)"
  by (induction h arbitrary: g)
     (auto simp: sym_graph_add_user_pairs distinct_dict_fromkeys)

lemma sym_graph_build: "sym_graph (build_copurchase_graph h)"
  by (simp add: build_copurchase_graph_def sym_graph_add_users sym_graph_Nil)

text \<open>
  C5. For every purchase history the graph built by \<open>build_copurchase_graph\<close> is
  symmetric: the entry for \<open>(a, b)\<close> and the entry for \<open>(b, a)\<close> are both absent or
  both present with the same count; and no self-pair \<open>(a, a)\<close> is a key of the graph.
\<close>

theorem build_copurchase_graph_symmetric:
  "map_of (build_copurchase_graph h) (a, b) = map_of (build_copurchase_graph h) (b, a)
   \<and> (a, a) \<notin> fst ` set (build_copurchase_graph h)"
proof -
  have s: "sym_graph (build_copurchase_graph h)" by (rule sym_graph_build)
  then have "map_of (build_copurchase_graph h) (a, a) = None"
    by (simp add: sym_graph_def)
  then have "(a, a) \<notin> fst ` set (build_copurchase_graph h)"
    by (simp add: map_of_eq_None_iff)
  with s show ?thesis by (simp add: sym_graph_def)
qed

subsection \<open>The example graph\<close>

text \<open>
  C2, as claimed: on the example history the graph has edge \<open>(p1, p3)\<close> with count 1
  and edge \<open>(p3, p6)\<close> with count 2. This is false: only user \<open>u3\<close> bought both
  \<open>p3\<close> and \<open>p6\<close>.
\<close>

theorem example_graph_counterexample:
  "\<not> (map_of (build_copurchase_graph example_history) (''p1'', ''p3'') = Some 1
      \<and> map_of (build_copurchase_graph example_history) (''p3'', ''p6'') = Some 2)"
  by (simp add: build_copurchase_graph_def example_history_def dict_fromkeys_def)

text \<open>
  C2, amended: on the example history the graph has edge \<open>(p1, p3)\<close> with count 1 and
  edge \<open>(p3, p6)\<close> with count 1.
\<close>

theorem example_graph_counts:
  "map_of (build_copurchase_graph example_history) (''p1'', ''p3'') = Some 1
   \<and> map_of (build_copurchase_graph example_history) (''p3'', ''p6'') = Some 1"
  by (simp add: build_copurchase_graph_def example_history_def dict_fromkeys_def)

subsection \<open>The keys of the score map\<close>

lemma keys_score_edges:
  "fst ` set (score_edges owned w tup es m) =
     fst ` set m \<union> {b. b \<notin> set tup \<and> (\<exists>c. ((owned, b), c) \<in> set es)}"
proof (induction es arbitrary: m)
  case Nil
  then show ?case by simp
next
  case (Cons e es)
  obtain a b c where e: "e = ((a, b), c)" by (cases e) auto
  show ?case
    unfolding e by (auto simp: Cons.IH keys_dict_add)
qed

lemma keys_score_owned:
  "fst ` set (score_owned decay tup g idx os m) =
     fst ` set m \<union> {b. b \<notin> set tup \<and> (\<exists>a c. a \<in> set os \<and> ((a, b), c) \<in> set g)}"
  by (induction os arbitrary: idx m) (auto simp: keys_score_edges)

lemma keys_score_candidates:
  assumes "score_candidates owned g decay = Inr m"
  shows "fst ` set m = {b. b \<notin> set owned \<and> (\<exists>a c. a \<in> set owned \<and> ((a, b), c) \<in> set g)}"
proof -
  from assms have "m = score_owned decay owned g 0 owned []"
    by (simp add: score_candidates_def)
  then show ?thesis by (simp add: keys_score_owned)
qed

text \<open>
  C6. For every owned-products list, graph and decay factor in \<open>(0, 1]\<close>, no product of
  the owned-products list is a key of the score map that \<open>score_candidates\<close> returns.
\<close>

theorem score_candidates_excludes_owned:
  assumes "0 < decay" and "decay \<le> 1"
    and "score_candidates owned g decay = Inr m"
    and "p \<in> set owned"
  shows "p \<notin> fst ` set m"
  using keys_score_candidates [OF assms(3)] assms(4) by simp

theorem score_candidates_excludes_owned_witness:
  "(0::real) < 85 / 100 \<and> (85 / 100 :: real) \<le> 1
   \<and> score_candidates [''p3'', ''p6''] (build_copurchase_graph example_history) (85 / 100)
       = Inr [(''p1'', 37 / 20), (''p4'', 1), (''p2'', 17 / 20)]
   \<and> ''p3'' \<in> set [''p3'', ''p6'']
   \<and> ''p3'' \<notin> fst ` set [(''p1'', 37 / 20 :: real), (''p4'', 1), (''p2'', 17 / 20)]"
proof -
  have d1: "(0::real) < 85 / 100" and d2: "(85 / 100 :: real) \<le> 1" by simp_all
  have s: "score_candidates [''p3'', ''p6''] (build_copurchase_graph example_history) (85 / 100)
       = Inr [(''p1'', 37 / 20), (''p4'', 1), (''p2'', 17 / 20)]"
    by (simp add: score_candidates_def build_copurchase_graph_def example_history_def
        dict_fromkeys_def)
  have o: "''p3'' \<in> set [''p3'', ''p6'']" by simp
  have "''p3'' \<notin> fst ` set [(''p1'', 37 / 20 :: real), (''p4'', 1), (''p2'', 17 / 20)]"
    by (rule score_candidates_excludes_owned [OF d1 d2 s o])
  with d1 d2 s o show ?thesis by (intro conjI)
qed

subsection \<open>The decay factor is not validated\<close>




subsection \<open>The first pass respects the brand cap\<close>

lemma cap_inv_init: "cap_inv products mpb init_state"
  by (simp add: cap_inv_def init_state_def brand_occurrences_def)

lemma cap_inv_step:
  assumes inv: "cap_inv products mpb st" and prd: "products pid = Some prd"
    and cap: "\<not> int (brand_counter st (brand prd)) \<ge> mpb"
  shows "cap_inv products mpb
           \<lparr>chosen = chosen st @ [(pid, score)],
            brand_counter = (brand_counter st)(brand prd := brand_counter st (brand prd) + 1),
            categories_present = insert (category prd) (categories_present st)\<rparr>"
  unfolding cap_inv_def
proof (intro allI conjI)
  fix b
  let ?st' = "\<lparr>chosen = chosen st @ [(pid, score)],
            brand_counter = (brand_counter st)(brand prd := brand_counter st (brand prd) + 1),
            categories_present = insert (category prd) (categories_present st)\<rparr>"
  from inv have eq: "brand_counter st b = brand_occurrences products b (chosen st)"
    and le: "int (brand_counter st b) \<le> max 0 mpb"
    unfolding cap_inv_def by blast+
  show "brand_counter ?st' b = brand_occurrences products b (chosen ?st')"
    using eq prd by (cases "b = brand prd") (auto simp: brand_occurrences_def)
  show "int (brand_counter ?st' b) \<le> max 0 mpb"
    using le cap by (cases "b = brand prd") auto
qed

lemma cap_inv_first_pass:
  "cap_inv products mpb st \<Longrightarrow> cap_inv products mpb (first_pass products k mpb mcd xs st)"
proof (induction xs arbitrary: st)
  case Nil
  then show ?case by simp
next
  case (Cons x xs)
  obtain pid score where x: "x = (pid, score)" by (cases x)
  show ?case
  proof (cases "products pid")
    case None
    with Cons show ?thesis by (simp add: x)
  next
    case (Some prd)
    show ?thesis
    proof (cases "int (brand_counter st (brand prd)) \<ge> mpb")
      case True
      with Some Cons show ?thesis by (simp add: x)
    next
      case False
      from cap_inv_step [OF Cons.prems Some False]
      show ?thesis using Some False Cons.IH by (simp add: x Let_def)
    qed
  qed
qed

lemma backfill_appends: "\<exists>ys. backfill products k xs acc = acc @ ys"
proof (induction xs arbitrary: acc)
  case Nil
  then show ?case by simp
next
  case (Cons x xs)
  obtain pid score where x: "x = (pid, score)" by (cases x)
  from Cons.IH [of acc] obtain ys1 where 1: "backfill products k xs acc = acc @ ys1" ..
  from Cons.IH [of "acc @ [(pid, score)]"] obtain ys2
    where 2: "backfill products k xs (acc @ [(pid, score)]) = acc @ (pid, score) # ys2" by auto
  show ?case
    by (auto simp: x Let_def 1 2 split: option.splits)
qed

text \<open>
  C7. For every score map, catalog, \<open>top_k\<close> and \<open>max_per_brand\<close>: the output of
  \<open>fairness_rerank\<close> starts with the items selected by the first pass (the backfill only
  appends), and among those items no brand occurs more than \<open>max_per_brand\<close> times;
  with a cap below one, no brand occurs at all.
\<close>

theorem first_pass_brand_cap:
  "(\<exists>ys. fairness_rerank candidates products top_k max_per_brand min_category_diversity
           = Inr (first_pass_chosen candidates products top_k max_per_brand min_category_diversity @ ys))
   \<and> int (brand_occurrences products b
            (first_pass_chosen candidates products top_k max_per_brand min_category_diversity))
       \<le> max 0 max_per_brand"
proof -
  have "cap_inv products max_per_brand
          (first_pass products top_k max_per_brand min_category_diversity
             (sorted_items candidates) init_state)"
    by (rule cap_inv_first_pass [OF cap_inv_init])
  then have cap: "int (brand_occurrences products b
            (first_pass_chosen candidates products top_k max_per_brand min_category_diversity))
       \<le> max 0 max_per_brand"
    unfolding cap_inv_def first_pass_chosen_def by metis
  have "\<exists>ys. fairness_rerank candidates products top_k max_per_brand min_category_diversity
           = Inr (first_pass_chosen candidates products top_k max_per_brand min_category_diversity @ ys)"
    using backfill_appends [of products top_k "sorted_items candidates"
        "first_pass_chosen candidates products top_k max_per_brand min_category_diversity"]
    by (auto simp: fairness_rerank_def Let_def)
  with cap show ?thesis by (rule conjI [rotated])
qed

subsection \<open>The output is drawn from the score map, without repetition\<close>

lemma set_sorted_items: "set (sorted_items c) = set c"
  by (simp add: sorted_items_def)

lemma distinct_keys_sorted_items:
  "distinct (map fst c) \<Longrightarrow> distinct (map fst (sorted_items c))"
  by (simp add: sorted_items_def distinct_map)

lemma first_pass_rule:
  assumes init: "Q st xs"
    and skip: "\<And>st x xs. Q st (x # xs) \<Longrightarrow> Q st xs"
    and take: "\<And>st pid score prd xs.
        Q st ((pid, score) # xs) \<Longrightarrow> products pid = Some prd \<Longrightarrow>
        \<not> mpb \<le> int (brand_counter st (brand prd)) \<Longrightarrow>
        Q \<lparr>chosen = chosen st @ [(pid, score)],
           brand_counter = (brand_counter st)(brand prd := brand_counter st (brand prd) + 1),
           categories_present = insert (category prd) (categories_present st)\<rparr> xs"
  shows "Q (first_pass products k mpb mcd xs st) []"
  using init
proof (induction xs arbitrary: st)
  case Nil
  then show ?case by simp
next
  case (Cons x xs)
  obtain pid score where x: "x = (pid, score)" by (cases x)
  have drop: "Q st' []" if "Q st' ys" for st' ys
    using that by (induction ys) (auto dest: skip)
  show ?case
  proof (cases "products pid")
    case None
    with Cons.IH [OF skip [OF Cons.prems]] show ?thesis by (simp add: x)
  next
    case (Some prd)
    show ?thesis
    proof (cases "mpb \<le> int (brand_counter st (brand prd))")
      case True
      with Some Cons.IH [OF skip [OF Cons.prems]] show ?thesis by (simp add: x)
    next
      case False
      from take [OF Cons.prems [unfolded x] Some False]
      show ?thesis
        using Some False Cons.IH drop by (simp add: x Let_def)
    qed
  qed
qed

lemma set_first_pass:
  "set (chosen (first_pass products k mpb mcd xs st)) \<subseteq> set (chosen st) \<union> set xs"
proof -
  define S where "S = set (chosen st) \<union> set xs"
  have "set (chosen (first_pass products k mpb mcd xs st)) \<union> set [] \<subseteq> S"
    by (rule first_pass_rule [where Q = "\<lambda>st xs. set (chosen st) \<union> set xs \<subseteq> S"])
       (auto simp: S_def)
  then show ?thesis by (simp add: S_def)
qed

lemma distinct_first_pass:
  assumes "distinct (map fst (chosen st @ xs))"
  shows "distinct (map fst (chosen (first_pass products k mpb mcd xs st)))"
proof -
  have "distinct (map fst (chosen (first_pass products k mpb mcd xs st) @ []))"
    by (rule first_pass_rule [where Q = "\<lambda>st xs. distinct (map fst (chosen st @ xs))"])
       (use assms in auto)
  then show ?thesis by simp
qed

lemma set_backfill: "set (backfill products k xs acc) \<subseteq> set acc \<union> set xs"
proof (induction xs arbitrary: acc)
  case Nil
  then show ?case by simp
next
  case (Cons x xs)
  obtain pid score where x: "x = (pid, score)" by (cases x)
  have a: "set (backfill products k xs acc) \<subseteq> set acc \<union> set (x # xs)"
    using Cons.IH [of acc] by auto
  have b: "set (backfill products k xs (acc @ [(pid, score)])) \<subseteq> set acc \<union> set (x # xs)"
    using Cons.IH [of "acc @ [(pid, score)]"] by (auto simp: x)
  show ?case
    using a b by (auto simp: x Let_def split: option.splits)
qed

lemma distinct_backfill:
  assumes "distinct (map fst c)" and "set xs \<subseteq> set c" and "set acc \<subseteq> set c"
    and "distinct (map fst acc)"
  shows "distinct (map fst (backfill products k xs acc))"
  using assms(2-)
proof (induction xs arbitrary: acc)
  case Nil
  then show ?case by simp
next
  case (Cons x xs)
  obtain pid score where x: "x = (pid, score)" by (cases x)
  have xs: "set xs \<subseteq> set c" using Cons.prems(1) by simp
  have a: "distinct (map fst (backfill products k xs acc))"
    using xs Cons.prems(2,3) by (rule Cons.IH)
  have fresh: "pid \<notin> fst ` set acc" if "(pid, score) \<notin> set acc"
  proof
    assume "pid \<in> fst ` set acc"
    then obtain s' where s': "(pid, s') \<in> set acc" by auto
    with Cons.prems(2) have "(pid, s') \<in> set c" by auto
    moreover from Cons.prems(1) have "(pid, score) \<in> set c" by (simp add: x)
    ultimately have "s' = score"
      using assms(1) by (meson eq_key_imp_eq_value)
    with s' that show False by simp
  qed
  have d: "distinct (map fst (acc @ [(pid, score)]))" if "(pid, score) \<notin> set acc"
    using fresh [OF that] Cons.prems(3) by simp
  have b: "distinct (map fst (backfill products k xs (acc @ [(pid, score)])))"
    if "(pid, score) \<notin> set acc"
    using Cons.prems(1,2) d [OF that] by (intro Cons.IH) (auto simp: x)
  show ?case
    using a b d by (auto simp: x Let_def split: option.splits)
qed

text \<open>
  C10. For a score map with pairwise distinct keys, every (product id, score) pair of the
  output of \<open>fairness_rerank\<close> is a pair of the score map, score unchanged, and no
  product id occurs twice in the output.
\<close>

theorem fairness_rerank_sound_distinct:
  assumes "distinct (map fst candidates)"
    and "fairness_rerank candidates products top_k max_per_brand min_category_diversity = Inr r"
  shows "set r \<subseteq> set candidates \<and> distinct (map fst r)"
proof -
  let ?xs = "sorted_items candidates"
  let ?c1 = "first_pass_chosen candidates products top_k max_per_brand min_category_diversity"
  have dx: "distinct (map fst ?xs)"
    using assms(1) by (rule distinct_keys_sorted_items)
  have s1: "set ?c1 \<subseteq> set ?xs"
    using set_first_pass [of products top_k max_per_brand min_category_diversity ?xs init_state]
    by (simp add: first_pass_chosen_def init_state_def)
  have d1: "distinct (map fst ?c1)"
    unfolding first_pass_chosen_def
    by (rule distinct_first_pass) (simp add: init_state_def dx)
  have s2: "set (backfill products top_k ?xs ?c1) \<subseteq> set ?xs"
    using set_backfill [of products top_k ?xs ?c1] s1 by auto
  have d2: "distinct (map fst (backfill products top_k ?xs ?c1))"
    using dx _ s1 d1 by (rule distinct_backfill) simp
  from assms(2) have "r = ?c1 \<or> r = backfill products top_k ?xs ?c1"
    by (auto simp: fairness_rerank_def Let_def split: if_splits)
  then show ?thesis
    using s1 d1 s2 d2 by (auto simp: set_sorted_items)
qed

theorem fairness_rerank_sound_distinct_witness:
  "distinct (map fst [(''p1'', 1 :: real), (''p6'', 1)])
   \<and> fairness_rerank [(''p1'', 1), (''p6'', 1)] demo_catalog 5 2 2 = Inr [(''p1'', 1), (''p6'', 1)]
   \<and> set [(''p1'', 1 :: real), (''p6'', 1)] \<subseteq> set [(''p1'', 1), (''p6'', 1)]
   \<and> distinct (map fst [(''p1'', 1 :: real), (''p6'', 1)])"
proof -
  have d: "distinct (map fst [(''p1'', 1 :: real), (''p6'', 1)])" by simp
  have r: "fairness_rerank [(''p1'', 1), (''p6'', 1)] demo_catalog 5 2 2
             = Inr [(''p1'', 1), (''p6'', 1)]"
    by (simp add: fairness_rerank_def first_pass_chosen_def sorted_items_def init_state_def
        demo_catalog_def)
  from fairness_rerank_sound_distinct [OF d r] d r show ?thesis by (intro conjI) simp_all
qed

subsection \<open>The output can be longer than top_k\<close>

text \<open>
  C1 claims that the list returned by \<open>fairness_rerank\<close> never has more than \<open>top_k\<close>
  items. The first loop stops only when the length is exactly \<open>top_k\<close> and the category
  diversity is reached at that moment; when the diversity is not reached by then, the loop
  runs on past \<open>top_k\<close>. With the catalog of \<^verbatim>\<open>demo()\<close>, the candidates \<open>p1\<close> and \<open>p6\<close>
  (both of category Outdoors, the raw scores of user \<open>u4\<close>) and \<open>top_k = 1\<close>, two items
  are returned.
\<close>

theorem fairness_rerank_exceeds_top_k:
  "fairness_rerank [(''p1'', 1), (''p6'', 1)] demo_catalog 1 2 2 = Inr [(''p1'', 1), (''p6'', 1)]
   \<and> \<not> int (length [(''p1'', 1 :: real), (''p6'', 1)]) \<le> 1"
  by (simp add: fairness_rerank_def first_pass_chosen_def sorted_items_def init_state_def
        demo_catalog_def)

lemma backfill_complete:
  assumes "int (length (backfill products k xs acc)) \<noteq> k"
    and "kv \<in> set xs" and "products (fst kv) \<noteq> None"
  shows "kv \<in> set (backfill products k xs acc)"
  using assms
proof (induction xs arbitrary: acc)
  case Nil
  then show ?case by simp
next
  case (Cons x xs)
  obtain pid score where x: "x = (pid, score)" by (cases x)
  have keep: "set acc' \<subseteq> set (backfill products k xs acc')" for acc'
    using backfill_appends [of products k xs acc'] by auto
  have "\<exists>acc'. backfill products k ((pid, score) # xs) acc = backfill products k xs acc'
          \<and> (products pid \<noteq> None \<longrightarrow> (pid, score) \<in> set acc')"
  proof (cases "(pid, score) \<in> set acc \<or> products pid = None")
    case True
    then have "backfill products k ((pid, score) # xs) acc = backfill products k xs acc
                 \<and> (products pid \<noteq> None \<longrightarrow> (pid, score) \<in> set acc)"
      by auto
    then show ?thesis by blast
  next
    case False
    then obtain prd where prd: "products pid = Some prd" and notin: "(pid, score) \<notin> set acc"
      by auto
    from Cons.prems(1) prd notin have "int (length (acc @ [(pid, score)])) \<noteq> k"
      by (auto simp: x Let_def split: if_splits)
    with prd notin
    have "backfill products k ((pid, score) # xs) acc
            = backfill products k xs (acc @ [(pid, score)])
          \<and> (products pid \<noteq> None \<longrightarrow> (pid, score) \<in> set (acc @ [(pid, score)]))"
      by (simp add: Let_def)
    then show ?thesis by blast
  qed
  then obtain acc' where r: "backfill products k ((pid, score) # xs) acc = backfill products k xs acc'"
    and inn: "products pid \<noteq> None \<longrightarrow> (pid, score) \<in> set acc'"
    by blast
  from Cons.prems(1) have 1: "int (length (backfill products k xs acc')) \<noteq> k"
    unfolding x r .
  show ?case
  proof (cases "kv = (pid, score)")
    case True
    with Cons.prems(3) inn have "kv \<in> set acc'" by simp
    with keep [of acc'] show ?thesis unfolding x r by blast
  next
    case False
    with Cons.prems(2) have "kv \<in> set xs" by (simp add: x)
    from Cons.IH [OF 1 this Cons.prems(3)] show ?thesis unfolding x r .
  qed
qed

text \<open>
  The other half of that claim does hold: for a score map with distinct keys, a result
  shorter than \<open>top_k\<close> means that fewer than \<open>top_k\<close> candidates are in the catalog.
\<close>

lemma fairness_rerank_short_only_if_few:
  assumes d: "distinct (map fst candidates)"
    and r: "fairness_rerank candidates products top_k max_per_brand min_category_diversity = Inr r"
    and short: "int (length r) < top_k"
  shows "int (length (filter (\<lambda>kv. products (fst kv) \<noteq> None) candidates)) < top_k"
proof -
  let ?xs = "sorted_items candidates"
  let ?c1 = "first_pass_chosen candidates products top_k max_per_brand min_category_diversity"
  from r short have rb: "r = backfill products top_k ?xs ?c1"
    by (auto simp: fairness_rerank_def Let_def split: if_splits)
  have "set (filter (\<lambda>kv. products (fst kv) \<noteq> None) candidates) \<subseteq> set r"
  proof
    fix kv assume "kv \<in> set (filter (\<lambda>kv. products (fst kv) \<noteq> None) candidates)"
    then have "kv \<in> set ?xs" and "products (fst kv) \<noteq> None"
      by (simp_all add: set_sorted_items)
    moreover from short rb have "int (length (backfill products top_k ?xs ?c1)) \<noteq> top_k"
      by simp
    ultimately show "kv \<in> set r"
      unfolding rb by (intro backfill_complete)
  qed
  moreover have "distinct (filter (\<lambda>kv. products (fst kv) \<noteq> None) candidates)"
    using d by (simp add: distinct_map)
  ultimately have "length (filter (\<lambda>kv. products (fst kv) \<noteq> None) candidates) \<le> length r"
    by (metis card_mono distinct_card List.finite_set card_length le_trans)
  with short show ?thesis by simp
qed

subsection \<open>A non-positive top_k is not rejected\<close>






subsection \<open>An unknown user gets no recommendations\<close>

text \<open>
  C8. For every user id that is not a key of the purchase history, \<open>recommend_for_user\<close>
  returns the empty list and raises no error: the owned-products list is empty, on which
  the scorer returns the empty score map, on which the re-ranker returns the empty list.
\<close>

theorem recommend_unknown_user:
  assumes "map_of purchase_history user_id = None"
  shows "recommend_for_user user_id purchase_history products top_k = Inr []
     \<and> score_candidates [] (build_copurchase_graph purchase_history) (85 / 100) = Inr []
     \<and> fairness_rerank [] products top_k 2 2 = Inr []"
  using assms
  by (simp add: recommend_for_user_def score_candidates_def fairness_rerank_def
      first_pass_chosen_def sorted_items_def init_state_def)

theorem recommend_unknown_user_witness:
  "map_of demo_history ''u9'' = None
   \<and> recommend_for_user ''u9'' demo_history demo_catalog 5 = Inr []
   \<and> score_candidates [] (build_copurchase_graph demo_history) (85 / 100) = Inr []
   \<and> fairness_rerank [] demo_catalog 5 2 2 = Inr []"
proof -
  have h: "map_of demo_history ''u9'' = None" by (simp add: demo_history_def)
  from recommend_unknown_user [OF h, of demo_catalog 5] h show ?thesis by (intro conjI) simp_all
qed

subsection \<open>The explanation\<close>













end
